theory Spec2Isabelle
  imports Complex_Main "HOL-Library.AList"
begin

section \<open>Python values, templates and errors\<close>

text \<open>
  The handlers of \<^verbatim>\<open>backend/globaleaks/handlers/base.py\<close> work on payloads decoded by
  \<^verbatim>\<open>json.loads\<close>. A decoded payload is one of the Python values below. A Python dict
  keeps its items in insertion order and has no duplicate key: it is an association list
  here, and \<open>wf_value\<close> says that its keys are distinct. Division is Python 3's true
  division throughout.
\<close>

datatype pyfloat = Finite rat | PosInf | NegInf | NaN

datatype "value" =
    VNone
  | VBool bool
  | VInt int
  | VFloat pyfloat
  | VStr string
  | VList "value list"
  | VDict "(string \<times> value) list"

text \<open>The callable templates: primitive classes and the marker class of \<^verbatim>\<open>rest/requests.py\<close>.\<close>

datatype python_type =
  PyInt | PyBool | PyText | PyFloat | PyDict | PyList | SkipSpecificValidation

datatype template =
    TType python_type
  | TRegex string
  | TDict "(string \<times> template) list"
  | TList "template list"

datatype validation_msg =
    KeyTypeFailure string
  | MissingKey string
  | DoubleValidationFailure string
  | SuccessCounterFailure
  | NotEveryElement
  | ExpectedDictOrList
  | InvalidJSONFormat
  | UnexpectedCondition

datatype error =
    InputValidationError validation_msg
  | AttributeError
  | TypeError
  | IndexError
  | KeyError
  | ValueError
  | UnicodeDecodeError
  | HTTPAuthenticationRequired
  | NotAuthenticated
  | InvalidAuthentication
  | FileTooBig int
  | IOError
  | OverflowError
  | BinasciiError

text \<open>
  Library functions the validator calls and whose code is outside the repository: whether
  \<^verbatim>\<open>int(s)\<close> parses a text, \<^verbatim>\<open>re.match(pattern, text)\<close>, \<^verbatim>\<open>text_type(value)\<close>
  (\<open>None\<close> when the conversion raises) and \<^verbatim>\<open>json.loads\<close> after the UTF-8 decoding
  (\<open>None\<close> when either raises \<^verbatim>\<open>ValueError\<close>).
\<close>

record pylib =
  int_str :: "string \<Rightarrow> bool"
  re_match :: "string \<Rightarrow> string \<Rightarrow> bool"
  text_type :: "value \<Rightarrow> string option"
  json_loads :: "string \<Rightarrow> value option"

fun truthy :: "value \<Rightarrow> bool" where
  "truthy VNone = False"
| "truthy (VBool b) = b"
| "truthy (VInt i) = (i \<noteq> 0)"
| "truthy (VFloat f) = (f \<noteq> Finite 0)"
| "truthy (VStr s) = (s \<noteq> [])"
| "truthy (VList xs) = (xs \<noteq> [])"
| "truthy (VDict kvs) = (kvs \<noteq> [])"

text \<open>\<^verbatim>\<open>for x in value\<close>: a list gives its elements, a dict its keys, a text its characters;
  anything else raises \<^verbatim>\<open>TypeError\<close>.\<close>

fun iter_value :: "value \<Rightarrow> error + value list" where
  "iter_value (VList xs) = Inr xs"
| "iter_value (VDict kvs) = Inr (map (\<lambda>kv. VStr (fst kv)) kvs)"
| "iter_value (VStr s) = Inr (map (\<lambda>c. VStr [c]) s)"
| "iter_value _ = Inl TypeError"

text \<open>\<^verbatim>\<open>int(value)\<close> inside \<^verbatim>\<open>try ... except: return False\<close>.\<close>

fun int_coercible :: "pylib \<Rightarrow> value \<Rightarrow> bool" where
  "int_coercible L (VBool b) = True"
| "int_coercible L (VInt i) = True"
| "int_coercible L (VFloat (Finite q)) = True"
| "int_coercible L (VFloat _) = False"
| "int_coercible L (VStr s) = int_str L s"
| "int_coercible L _ = False"

text \<open>\<^verbatim>\<open>isinstance(value, python_type)\<close>; \<^verbatim>\<open>bool\<close> is a subclass of \<^verbatim>\<open>int\<close>.\<close>

fun isinstance :: "value \<Rightarrow> python_type \<Rightarrow> bool" where
  "isinstance (VBool b) PyInt = True"
| "isinstance (VInt i) PyInt = True"
| "isinstance (VBool b) PyBool = True"
| "isinstance (VFloat f) PyFloat = True"
| "isinstance (VStr s) PyText = True"
| "isinstance (VList xs) PyList = True"
| "isinstance (VDict kvs) PyDict = True"
| "isinstance _ _ = False"

definition validate_python_type :: "pylib \<Rightarrow> value \<Rightarrow> python_type \<Rightarrow> bool" where
  "validate_python_type L v python_type =
     (if v = VNone then True
      else if python_type = SkipSpecificValidation then True
      else if python_type = PyInt then int_coercible L v
      else if python_type = PyBool \<and> (v = VStr ''true'' \<or> v = VStr ''false'') then True
      else isinstance v python_type)"

definition validate_regexp :: "pylib \<Rightarrow> value \<Rightarrow> string \<Rightarrow> bool" where
  "validate_regexp L v pattern =
     (case text_type L v of None \<Rightarrow> False | Some s \<Rightarrow> re_match L pattern s)"

text \<open>\<^verbatim>\<open>isinstance(t, dict) or isinstance(t, list)\<close> followed by the truth test of \<open>t\<close>.\<close>

fun nonempty_dict_or_list :: "template \<Rightarrow> bool" where
  "nonempty_dict_or_list (TDict T) = (T \<noteq> [])"
| "nonempty_dict_or_list (TList ts) = (ts \<noteq> [])"
| "nonempty_dict_or_list _ = False"

text \<open>\<^verbatim>\<open>for key in keys_to_strip: del jmessage[key]\<close>.\<close>

definition strip_keys :: "string list \<Rightarrow> (string \<times> value) list \<Rightarrow> (string \<times> value) list" where
  "strip_keys ks kvs = filter (\<lambda>kv. fst kv \<notin> set ks) kvs"

lemma size_template_map_of:
  "map_of T k = Some t \<Longrightarrow> size t < size_list (size_prod (\<lambda>x. 0) size) T"
  by (induction T) (auto split: if_splits)

section \<open>The structural validator\<close>

text \<open>
  \<open>validate_type\<close> and \<open>validate_jmessage\<close> call each other. Both change the payload in
  place (keys that the template does not have are deleted, also in nested dicts), so each
  returns the payload as it is afterwards beside its Boolean result. \<open>all_validate\<close> is
  \<^verbatim>\<open>all(validate_type(x, type[0]) for x in value)\<close>, which stops at the first element that
  fails and reads \<^verbatim>\<open>type[0]\<close> once per element. \<open>first_pass\<close> is the loop over
  \<^verbatim>\<open>jmessage.items()\<close>: it returns the number of successes, \<^verbatim>\<open>keys_to_strip\<close> and the
  items. \<open>second_pass\<close> is the loop over \<^verbatim>\<open>message_template.items()\<close>.
\<close>

function (sequential) validate_type :: "pylib \<Rightarrow> value \<Rightarrow> template \<Rightarrow> error + (bool \<times> value)"
  and validate_jmessage :: "pylib \<Rightarrow> value \<Rightarrow> template \<Rightarrow> error + (bool \<times> value)"
  and all_validate :: "pylib \<Rightarrow> value list \<Rightarrow> template list \<Rightarrow> error + (bool \<times> value list)"
  and first_pass :: "pylib \<Rightarrow> (string \<times> value) list \<Rightarrow> (string \<times> template) list
        \<Rightarrow> error + (nat \<times> string list \<times> (string \<times> value) list)"
  and second_pass :: "pylib \<Rightarrow> (string \<times> value) list \<Rightarrow> (string \<times> template) list
        \<Rightarrow> error + (nat \<times> (string \<times> value) list)"
where
  "validate_type L v (TType p) =
     (if v = VNone then Inr (False, v) else Inr (validate_python_type L v p, v))"
| "validate_type L v (TDict T) =
     (if v = VNone then Inr (False, v) else validate_jmessage L v (TDict T))"
| "validate_type L v (TRegex r) =
     (if v = VNone then Inr (False, v) else Inr (validate_regexp L v r, v))"
| "validate_type L v (TList ts) =
     (if v = VNone then Inr (False, v)
      else if \<not> truthy v then Inr (True, v)
      else (case v of
              VList xs \<Rightarrow>
                (case all_validate L xs ts of
                   Inl e \<Rightarrow> Inl e
                 | Inr (b, xs') \<Rightarrow> Inr (b, VList xs'))
            | _ \<Rightarrow>
                (case iter_value v of
                   Inl e \<Rightarrow> Inl e
                 | Inr xs \<Rightarrow>
                     (case all_validate L xs ts of
                        Inl e \<Rightarrow> Inl e
                      | Inr (b, xs') \<Rightarrow> Inr (b, v)))))"
| "validate_jmessage L jmessage (TDict T) =
     (case jmessage of
        VDict kvs \<Rightarrow>
          (case first_pass L kvs T of
             Inl e \<Rightarrow> Inl e
           | Inr (n1, keys_to_strip, kvs1) \<Rightarrow>
               (case second_pass L (strip_keys keys_to_strip kvs1) T of
                  Inl e \<Rightarrow> Inl e
                | Inr (n2, kvs2) \<Rightarrow>
                    if n1 + n2 \<noteq> length T * 2
                    then Inl (InputValidationError SuccessCounterFailure)
                    else Inr (True, VDict kvs2)))
      | _ \<Rightarrow> Inl AttributeError)"
| "validate_jmessage L jmessage (TList ts) =
     (case jmessage of
        VList xs \<Rightarrow>
          (case all_validate L xs ts of
             Inl e \<Rightarrow> Inl e
           | Inr (b, xs') \<Rightarrow>
               if \<not> b then Inl (InputValidationError NotEveryElement)
               else Inr (True, VList xs'))
      | _ \<Rightarrow>
          (case iter_value jmessage of
             Inl e \<Rightarrow> Inl e
           | Inr xs \<Rightarrow>
               (case all_validate L xs ts of
                  Inl e \<Rightarrow> Inl e
                | Inr (b, xs') \<Rightarrow>
                    if \<not> b then Inl (InputValidationError NotEveryElement)
                    else Inr (True, jmessage))))"
| "validate_jmessage L jmessage (TType p) = Inl (InputValidationError ExpectedDictOrList)"
| "validate_jmessage L jmessage (TRegex r) = Inl (InputValidationError ExpectedDictOrList)"
| "all_validate L [] ts = Inr (True, [])"
| "all_validate L (x # xs) [] = Inl IndexError"
| "all_validate L (x # xs) (t0 # ts) =
     (case validate_type L x t0 of
        Inl e \<Rightarrow> Inl e
      | Inr (b, x') \<Rightarrow>
          if \<not> b then Inr (False, x' # xs)
          else (case all_validate L xs (t0 # ts) of
                  Inl e \<Rightarrow> Inl e
                | Inr (b', xs') \<Rightarrow> Inr (b', x' # xs')))"
| "first_pass L [] T = Inr (0, [], [])"
| "first_pass L ((key, v) # rest) T =
     (case map_of T key of
        None \<Rightarrow>
          (case first_pass L rest T of
             Inl e \<Rightarrow> Inl e
           | Inr (n, keys_to_strip, rest') \<Rightarrow> Inr (n, key # keys_to_strip, (key, v) # rest'))
      | Some tk \<Rightarrow>
          (case validate_type L v tk of
             Inl e \<Rightarrow> Inl e
           | Inr (b, v') \<Rightarrow>
               if \<not> b then Inl (InputValidationError (KeyTypeFailure key))
               else (case first_pass L rest T of
                       Inl e \<Rightarrow> Inl e
                     | Inr (n, keys_to_strip, rest') \<Rightarrow>
                         Inr (Suc n, keys_to_strip, (key, v') # rest'))))"
| "second_pass L kvs [] = Inr (0, kvs)"
| "second_pass L kvs ((key, tv) # rest) =
     (case map_of kvs key of
        None \<Rightarrow> Inl (InputValidationError (MissingKey key))
      | Some v \<Rightarrow>
          (case validate_type L v tv of
             Inl e \<Rightarrow> Inl e
           | Inr (b, v') \<Rightarrow>
               if \<not> b then Inl (InputValidationError (DoubleValidationFailure key))
               else (case (if nonempty_dict_or_list tv then validate_jmessage L v' tv
                           else Inr (True, v')) of
                       Inl e \<Rightarrow> Inl e
                     | Inr (b', v'') \<Rightarrow>
                         (case second_pass L (AList.update key v'' kvs) rest of
                            Inl e \<Rightarrow> Inl e
                          | Inr (n, kvs') \<Rightarrow> Inr (Suc n, kvs')))))"

  by pat_completeness auto

termination
  apply (relation "measures
    [case_sum
       (case_sum (\<lambda>(L, v, t). size t) (\<lambda>(L, v, t). size t))
       (case_sum (\<lambda>(L, xs, ts). size_list size ts)
          (case_sum (\<lambda>(L, kvs, T). size_list (size_prod (\<lambda>x. 0) size) T)
                    (\<lambda>(L, kvs, T). size_list (size_prod (\<lambda>x. 0) size) T))),
     case_sum (case_sum (\<lambda>x. Suc 0) (\<lambda>x. 0)) (\<lambda>x. 0),
     case_sum (\<lambda>x. 0)
       (case_sum (\<lambda>(L, xs, ts). length xs)
          (case_sum (\<lambda>(L, kvs, T). length kvs) (\<lambda>x. 0)))]")
  apply (simp_all add: size_template_map_of)
  done

text \<open>\<^verbatim>\<open>validate_message\<close>: decode, validate, return the payload as the validation left it.\<close>

definition validate_message :: "pylib \<Rightarrow> string \<Rightarrow> template \<Rightarrow> error + value" where
  "validate_message L message message_template =
     (case json_loads L message of
        None \<Rightarrow> Inl (InputValidationError InvalidJSONFormat)
      | Some jmessage \<Rightarrow>
          (case validate_jmessage L jmessage message_template of
             Inl e \<Rightarrow> Inl e
           | Inr (b, jmessage') \<Rightarrow>
               if b then Inr jmessage'
               else Inl (InputValidationError UnexpectedCondition)))"

text \<open>A library instance for the concrete runs below.\<close>

definition example_lib :: pylib where
  "example_lib =
     \<lparr> int_str = (\<lambda>s. s = ''1''),
       re_match = (\<lambda>pattern s. s = pattern),
       text_type = (\<lambda>v. case v of VStr s \<Rightarrow> Some s | _ \<Rightarrow> None),
       json_loads = (\<lambda>s. if s = ''payload'' then Some (VDict [(''a'', VInt 5)]) else None) \<rparr>"

text \<open>A Python dict has no duplicate key: the values and templates that exist are the
  well-formed ones.\<close>

fun wf_value :: "value \<Rightarrow> bool" where
  "wf_value (VList xs) = (\<forall>x \<in> set xs. wf_value x)"
| "wf_value (VDict kvs) = (distinct (map fst kvs) \<and> (\<forall>kv \<in> set kvs. wf_value (snd kv)))"
| "wf_value _ = True"

fun wf_template :: "template \<Rightarrow> bool" where
  "wf_template (TList ts) = (\<forall>t \<in> set ts. wf_template t)"
| "wf_template (TDict T) = (distinct (map fst T) \<and> (\<forall>kt \<in> set T. wf_template (snd kt)))"
| "wf_template _ = True"

section \<open>Sessions, tenants and the handler object\<close>

text \<open>
  The objects \<open>BaseHandler\<close> reads: a session of the registry, the entry of a tenant in
  \<^verbatim>\<open>state.tenant_cache\<close>, the request, the shared state and the handler itself. Header
  and argument dicts are maps from byte strings; a missing key that the code indexes raises
  \<^verbatim>\<open>KeyError\<close>.
\<close>

record session =
  session_tid :: int
  user_role :: string
  user_id :: string

record tenant =
  basic_auth_enabled :: bool
  basic_auth_username :: string
  basic_auth_password :: string
  maximum_filesize :: int
  admin_api_token_digest :: string

text \<open>Modelled from the spec: \<^verbatim>\<open>SecureTemporaryFile\<close> (\<^verbatim>\<open>utils/securetempfile.py\<close>), a temporary
  object with a path, to which chunks are appended until it is finalized; after that no
  write is permitted.\<close>

record secure_temporary_file =
  filepath :: string
  written :: string
  finalized :: bool

record uploaded_file_desc =
  uf_date :: int
  uf_name :: string
  uf_type :: string
  uf_size :: int
  uf_filename :: string
  uf_body :: secure_temporary_file
  uf_description :: string

record timedelta =
  days :: int
  seconds :: int
  microseconds :: int

record request =
  req_tid :: int
  headers :: "string \<rightharpoonup> string"
  args :: "string \<rightharpoonup> string list"
  response_headers :: "(string \<times> string) list"
  start_time :: int
  execution_time :: "timedelta option"

record state =
  tenant_cache :: "int \<rightharpoonup> tenant"
  api_token_session :: "session option"
  TempUploadFiles :: "string \<rightharpoonup> secure_temporary_file"

record handler =
  name :: string
  state :: state
  request :: request
  handler_exec_time_threshold :: int
  uniform_answer_time :: bool
  bypass_basic_auth :: bool
  cached_current_user :: "session option option"
  uploaded_file :: "uploaded_file_desc option"

text \<open>
  What the handler takes from outside the two source files: the constants of \<^verbatim>\<open>Settings\<close>,
  the session registry \<^verbatim>\<open>Sessions.get\<close>, \<^verbatim>\<open>sha512\<close>, the UTF-8 decoding of a byte string
  (\<open>None\<close> when it raises), \<^verbatim>\<open>base64.b64decode\<close> (\<open>None\<close> when it raises), \<^verbatim>\<open>int\<close> on a
  byte string (\<open>None\<close> when it raises \<^verbatim>\<open>ValueError\<close>), \<^verbatim>\<open>mimetypes.guess_type\<close>,
  \<^verbatim>\<open>os.path.basename\<close>, the path that a new temporary file gets, and the clock readings
  \<^verbatim>\<open>datetime_now()\<close> and \<^verbatim>\<open>datetime.now()\<close> in microseconds.
\<close>

record env =
  api_token_len :: nat
  side_channels_guard :: rat
  tmp_path :: string
  Sessions_get :: "string \<Rightarrow> session option"
  sha512 :: "string \<Rightarrow> string"
  utf8_decode :: "string \<Rightarrow> string option"
  b64decode :: "string \<Rightarrow> string option"
  parse_int :: "string \<Rightarrow> int option"
  guess_type :: "string \<Rightarrow> string option"
  basename :: "string \<Rightarrow> string"
  new_filepath :: "string \<Rightarrow> string"
  datetime_now :: int

text \<open>\<^verbatim>\<open>self.request.args[key][0]\<close>.\<close>

definition arg0 :: "handler \<Rightarrow> string \<Rightarrow> error + string" where
  "arg0 self key =
     (case args (request self) key of
        None \<Rightarrow> Inl KeyError
      | Some [] \<Rightarrow> Inl IndexError
      | Some (x # xs) \<Rightarrow> Inr x)"

subsection \<open>Identity resolution\<close>

definition get_api_session :: "env \<Rightarrow> handler \<Rightarrow> error + session option" where
  "get_api_session E self =
     (case (if args (request self) ''api-token'' \<noteq> None then arg0 self ''api-token''
            else (case headers (request self) ''x-api-token'' of
                    Some t \<Rightarrow> Inr t
                  | None \<Rightarrow> Inr '''')) of
        Inl e \<Rightarrow> Inl e
      | Inr token \<Rightarrow>
          if req_tid (request self) \<noteq> 1
             \<or> length token \<noteq> api_token_len E
             \<or> api_token_session (state self) = None
          then Inr None
          else (case tenant_cache (state self) (req_tid (request self)) of
                  None \<Rightarrow> Inl KeyError
                | Some tc \<Rightarrow>
                    if admin_api_token_digest tc = [] then Inr None
                    else if sha512 E token = admin_api_token_digest tc
                    then Inr (api_token_session (state self))
                    else Inr None))"

definition get_current_user :: "env \<Rightarrow> handler \<Rightarrow> error + session option" where
  "get_current_user E self =
     (case get_api_session E self of
        Inl e \<Rightarrow> Inl e
      | Inr (Some api_session) \<Rightarrow> Inr (Some api_session)
      | Inr None \<Rightarrow>
          (case headers (request self) ''x-session'' of
             None \<Rightarrow> Inr None
           | Some session_id \<Rightarrow>
               (case utf8_decode E session_id of
                  None \<Rightarrow> Inl UnicodeDecodeError
                | Some sid \<Rightarrow>
                    (case Sessions_get E sid of
                       None \<Rightarrow> Inr None
                     | Some s \<Rightarrow>
                         if session_tid s = req_tid (request self) then Inr (Some s)
                         else Inr None))))"

text \<open>The property \<^verbatim>\<open>current_user\<close>: computed at the first access, then kept in
  \<^verbatim>\<open>_current_user\<close>.\<close>

definition current_user :: "env \<Rightarrow> handler \<Rightarrow> handler \<times> (error + session option)" where
  "current_user E self =
     (case cached_current_user self of
        Some u \<Rightarrow> (self, Inr u)
      | None \<Rightarrow>
          (case get_current_user E self of
             Inl e \<Rightarrow> (self, Inl e)
           | Inr u \<Rightarrow> (self\<lparr>cached_current_user := Some u\<rparr>, Inr u)))"

subsection \<open>The access controller\<close>

text \<open>\<^verbatim>\<open>bytes.split()\<close>: the maximal runs of characters that are not white space.\<close>

definition is_space :: "char \<Rightarrow> bool" where
  "is_space c \<longleftrightarrow> c \<in> set [CHR '' '', CHR 0x09, CHR 0x0A, CHR 0x0B, CHR 0x0C, CHR 0x0D]"

fun split_acc :: "string \<Rightarrow> string \<Rightarrow> string list" where
  "split_acc cur [] = (if cur = [] then [] else [cur])"
| "split_acc cur (c # cs) =
     (if is_space c then (if cur = [] then split_acc [] cs else cur # split_acc [] cs)
      else split_acc (cur @ [c]) cs)"

definition split_ws :: "string \<Rightarrow> string list" where
  "split_ws s = split_acc [] s"

text \<open>\<^verbatim>\<open>usr, pwd = s.split(":", 1)\<close>: \<open>None\<close> when there is no colon and the unpacking
  raises \<^verbatim>\<open>ValueError\<close>.\<close>

definition split_colon :: "string \<Rightarrow> (string \<times> string) option" where
  "split_colon s =
     (case dropWhile (\<lambda>c. c \<noteq> CHR '':'') s of
        [] \<Rightarrow> None
      | c # rest \<Rightarrow> Some (takeWhile (\<lambda>c. c \<noteq> CHR '':'') s, rest))"

text \<open>
  \<^verbatim>\<open>basic_auth\<close>. Only \<^verbatim>\<open>AssertionError\<close> is caught, so the other exceptions leave the
  method: \<^verbatim>\<open>ValueError\<close> when the header, or the decoded credentials, do not unpack into
  two parts, \<^verbatim>\<open>binascii.Error\<close> when the second part is not base64, and
  \<^verbatim>\<open>UnicodeDecodeError\<close> when the decoded bytes are not UTF-8.
\<close>

definition basic_auth :: "env \<Rightarrow> handler \<Rightarrow> handler \<times> (error + unit)" where
  "basic_auth E self =
     (case (case headers (request self) ''authorization'' of
              None \<Rightarrow> Inr (Some ''Authentication required'')
            | Some h \<Rightarrow>
                (case split_ws h of
                   [auth_type, data] \<Rightarrow>
                     (case b64decode E data of
                        None \<Rightarrow> Inl BinasciiError
                      | Some raw \<Rightarrow>
                          (case utf8_decode E raw of
                             None \<Rightarrow> Inl UnicodeDecodeError
                           | Some txt \<Rightarrow>
                               (case split_colon txt of
                                  None \<Rightarrow> Inl ValueError
                                | Some (usr, pwd) \<Rightarrow>
                                    if auth_type \<noteq> ''Basic''
                                    then Inr (Some ''Authentication failed'')
                                    else
                                     (case tenant_cache (state self) (req_tid (request self)) of
                                        None \<Rightarrow> Inl KeyError
                                      | Some tc \<Rightarrow>
                                          if usr \<noteq> basic_auth_username tc
                                             \<or> pwd \<noteq> basic_auth_password tc
                                          then Inr (Some ''Authentication failed'')
                                          else Inr None))))
                 | _ \<Rightarrow> Inl ValueError)) of
        Inl e \<Rightarrow> (self, Inl e)
      | Inr None \<Rightarrow> (self, Inr ())
      | Inr (Some msg) \<Rightarrow>
          (self\<lparr>request := (request self)\<lparr>response_headers :=
               response_headers (request self)
                 @ [(''WWW-Authenticate'', ''Basic realm='' @ [CHR 0x22] @ ''globaleaks'' @ [CHR 0x22])]\<rparr>\<rparr>,
           Inl HTTPAuthenticationRequired))"

text \<open>\<^verbatim>\<open>decorator_authentication(f, roles)\<close>: the wrapper it returns, applied to the handler.\<close>

definition decorator_authentication ::
  "env \<Rightarrow> (handler \<Rightarrow> handler \<times> (error + 'r)) \<Rightarrow> string list \<Rightarrow> handler \<Rightarrow> handler \<times> (error + 'r)"
where
  "decorator_authentication E f roles self =
     (case tenant_cache (state self) (req_tid (request self)) of
        None \<Rightarrow> (self, Inl KeyError)
      | Some tc \<Rightarrow>
          (case (if basic_auth_enabled tc \<and> \<not> bypass_basic_auth self then basic_auth E self
                 else (self, Inr ())) of
             (self1, Inl e) \<Rightarrow> (self1, Inl e)
           | (self1, Inr u) \<Rightarrow>
               if ''*'' \<in> set roles then f self1
               else if ''unauthenticated'' \<in> set roles then
                 (case current_user E self1 of
                    (self2, Inl e) \<Rightarrow> (self2, Inl e)
                  | (self2, Inr (Some s)) \<Rightarrow> (self2, Inl InvalidAuthentication)
                  | (self2, Inr None) \<Rightarrow> f self2)
               else
                 (case current_user E self1 of
                    (self2, Inl e) \<Rightarrow> (self2, Inl e)
                  | (self2, Inr None) \<Rightarrow> (self2, Inl NotAuthenticated)
                  | (self2, Inr (Some s)) \<Rightarrow>
                      if user_role s \<in> set roles then f self2
                      else (self2, Inl InvalidAuthentication))))"

subsection \<open>The upload assembler\<close>




text \<open>\<^verbatim>\<open>int.bit_length()\<close>.\<close>

function bit_length :: "int \<Rightarrow> nat" where
  "bit_length n = (if n \<le> 0 then 0 else Suc (bit_length (n div 2)))"
  by pat_completeness auto
termination
  by (relation "measure nat") auto

declare bit_length.simps [simp del]

text \<open>A non-negative integer rounded to 53 significant bits, ties to the even significand:
  the integer that the nearest float holds.\<close>

definition round_to_53_bits :: "int \<Rightarrow> int" where
  "round_to_53_bits n =
     (let e = bit_length n - 53; q = n div 2 ^ e; r = n mod 2 ^ e
      in if 2 * r > 2 ^ e \<or> (2 * r = 2 ^ e \<and> odd q) then (q + 1) * 2 ^ e else q * 2 ^ e)"

text \<open>
  \<^verbatim>\<open>size / (1024 * 1024)\<close>: the true division of two integers gives the float nearest to the
  quotient and raises \<^verbatim>\<open>OverflowError\<close> when that float would be \<open>2 ^ 1024\<close> or more.
  The divisor is a power of two, so the float is the dividend rounded to 53 significant
  bits, divided by \<open>2 ^ 20\<close>. The float is given as the rational number it holds.
\<close>

definition true_div_mb :: "int \<Rightarrow> error + rat" where
  "true_div_mb n =
     (let m = round_to_53_bits \<bar>n\<bar>
      in if 2 ^ 1024 * (1024 * 1024) \<le> m then Inl OverflowError
         else Inr (of_int (sgn n * m) / (1024 * 1024)))"





subsection \<open>The execution governor\<close>

text \<open>The difference of two \<^verbatim>\<open>datetime\<close> values, given in microseconds, as the normalised
  \<^verbatim>\<open>timedelta\<close> of Python: \<open>0 \<le> seconds < 86400\<close> and \<open>0 \<le> microseconds < 1000000\<close>.\<close>

definition timedelta_of :: "int \<Rightarrow> timedelta" where
  "timedelta_of us =
     \<lparr> days = us div 86400000000,
       seconds = (us mod 86400000000) div 1000000,
       microseconds = us mod 1000000 \<rparr>"

text \<open>
  \<^verbatim>\<open>execution_check\<close>, with the reading \<open>now\<close> of \<^verbatim>\<open>datetime.now()\<close>. The result holds the
  handler with its \<^verbatim>\<open>execution_time\<close>, whether the slow-handler alert was raised, and the
  delay in seconds given to \<^verbatim>\<open>deferred_sleep\<close> (\<open>None\<close> when the method returns without
  sleeping). The delay is computed in exact arithmetic; the float of the code is that
  number up to rounding.
\<close>

definition execution_check :: "env \<Rightarrow> int \<Rightarrow> handler \<Rightarrow> handler \<times> bool \<times> rat option" where
  "execution_check E now self =
     (let et = timedelta_of (now - start_time (request self));
          self1 = self\<lparr>request := (request self)\<lparr>execution_time := Some et\<rparr>\<rparr>;
          alert = (seconds et > handler_exec_time_threshold self)
      in (self1, alert,
          if uniform_answer_time self then
            (let needed_delay =
               (side_channels_guard E - of_int (microseconds et) / 1000) / 1000
             in if needed_delay > 0 then Some needed_delay else None)
          else None))"

section \<open>The streaming file producer\<close>

text \<open>
  The response channel records each \<^verbatim>\<open>write\<close> call, whether a producer is registered and
  whether \<^verbatim>\<open>finish\<close> was called. The producer holds its file (the bytes not yet read), whether
  \<^verbatim>\<open>self.request\<close> is still set, and how often its deferred \<^verbatim>\<open>finish\<close> was fired. The channel
  is shared between the producer and the transport, so a stream is the pair of both. The
  channel is one that accepts every call: the \<^verbatim>\<open>except\<close> clauses of the producer, which
  swallow the errors of a channel that is gone, are not entered.
\<close>

record response_channel =
  writes :: "string list"
  producer_registered :: bool
  channel_finished :: bool

record file_producer =
  has_request :: bool
  fd :: string
  finish_fired :: nat

definition FileProducer :: "string \<Rightarrow> file_producer" where
  "FileProducer file_content = \<lparr> has_request = True, fd = file_content, finish_fired = 0 \<rparr>"

definition start :: "file_producer \<times> response_channel \<Rightarrow> file_producer \<times> response_channel" where
  "start s = (case s of (p, ch) \<Rightarrow> (p, ch\<lparr>producer_registered := True\<rparr>))"

definition stopProducing :: "file_producer \<times> response_channel \<Rightarrow> file_producer \<times> response_channel" where
  "stopProducing s =
     (case s of (p, ch) \<Rightarrow>
        if has_request p
        then (p\<lparr>has_request := False, finish_fired := Suc (finish_fired p)\<rparr>,
              ch\<lparr>producer_registered := False, channel_finished := True\<rparr>)
        else (p, ch))"

text \<open>\<open>file_chunk_size\<close> is \<^verbatim>\<open>Settings.file_chunk_size\<close>; \<^verbatim>\<open>fd.read(n)\<close> returns the next \<open>n\<close>
  bytes, or fewer at the end of the file.\<close>

definition resumeProducing ::
  "nat \<Rightarrow> file_producer \<times> response_channel \<Rightarrow> file_producer \<times> response_channel" where
  "resumeProducing file_chunk_size s =
     (case s of (p, ch) \<Rightarrow>
        if has_request p
        then (let data = take file_chunk_size (fd p);
                  p1 = p\<lparr>fd := drop file_chunk_size (fd p)\<rparr>
              in if data \<noteq> [] then (p1, ch\<lparr>writes := writes ch @ [data]\<rparr>)
                 else stopProducing (p1, ch))
        else (p, ch))"

text \<open>The transport pulls from a registered producer until the producer unregisters. The
  loop need not end (a registered producer that has dropped its request is called for
  ever), so not returning is the value \<open>None\<close>.\<close>

partial_function (option) drive ::
  "nat \<Rightarrow> file_producer \<times> response_channel \<Rightarrow> (file_producer \<times> response_channel) option" where
  "drive file_chunk_size s =
     (if producer_registered (snd s) then drive file_chunk_size (resumeProducing file_chunk_size s)
      else Some s)"

definition new_channel :: response_channel where
  "new_channel = \<lparr> writes = [], producer_registered = False, channel_finished = False \<rparr>"

section \<open>The periodic PGP check\<close>

text \<open>
  \<^verbatim>\<open>jobs/pgp_check_sched.py\<close>. Times are microseconds. \<^verbatim>\<open>datetime_now()\<close> is called anew at
  each comparison, so the clock is the sequence of its readings and the loop counts the
  readings it has taken. \<^verbatim>\<open>datetime_null()\<close>, \<^verbatim>\<open>admin_serialize_receiver\<close> and the two
  settings of \<^verbatim>\<open>GLSettings.memory_copy\<close> come from outside the file.
\<close>

record user =
  pgp_key_public :: string
  pgp_key_expiration :: int
  pgp_key_status :: string

record receiver =
  receiver_id :: string
  user :: user

record 'd pgp_env =
  allow_unencrypted :: bool
  default_language :: string
  datetime_null :: int
  admin_serialize_receiver :: "receiver \<Rightarrow> string \<Rightarrow> 'd"
  clock :: "nat \<Rightarrow> int"

definition days15 :: int where
  "days15 = 15 * 86400 * 1000000"

text \<open>The loop of \<^verbatim>\<open>pgp_validation_check\<close> from the reading number \<open>i\<close> on: the receivers
  as the loop leaves them, \<^verbatim>\<open>expired_or_expiring\<close>, and the number of the next reading.\<close>

fun pgp_validation_loop ::
  "'d pgp_env \<Rightarrow> nat \<Rightarrow> receiver list \<Rightarrow> receiver list \<times> 'd list \<times> nat" where
  "pgp_validation_loop G i [] = ([], [], i)"
| "pgp_validation_loop G i (rcvr # rcvrs) =
     (if pgp_key_public (user rcvr) \<noteq> [] \<and> pgp_key_expiration (user rcvr) \<noteq> datetime_null G
      then
        (if pgp_key_expiration (user rcvr) < clock G i
         then
           (case pgp_validation_loop G (i + 1) rcvrs of (rs, expired_or_expiring, j) \<Rightarrow>
              ((if allow_unencrypted G
                then rcvr\<lparr>user := (user rcvr)\<lparr>pgp_key_status := ''disabled''\<rparr>\<rparr>
                else rcvr) # rs,
               admin_serialize_receiver G rcvr (default_language G) # expired_or_expiring,
               j))
         else if pgp_key_expiration (user rcvr) < clock G (i + 1) - days15
         then
           (case pgp_validation_loop G (i + 2) rcvrs of (rs, expired_or_expiring, j) \<Rightarrow>
              (rcvr # rs,
               admin_serialize_receiver G rcvr (default_language G) # expired_or_expiring,
               j))
         else
           (case pgp_validation_loop G (i + 2) rcvrs of (rs, expired_or_expiring, j) \<Rightarrow>
              (rcvr # rs, expired_or_expiring, j)))
      else
        (case pgp_validation_loop G i rcvrs of (rs, expired_or_expiring, j) \<Rightarrow>
           (rcvr # rs, expired_or_expiring, j)))"

definition pgp_validation_check :: "'d pgp_env \<Rightarrow> receiver list \<Rightarrow> 'd list" where
  "pgp_validation_check G rcvrs = fst (snd (pgp_validation_loop G 0 rcvrs))"

text \<open>The receivers whose key is set, has an expiration date and was expired at the reading
  the loop compared it with; \<open>i\<close> is the number of that reading.\<close>

fun expired_receivers :: "'d pgp_env \<Rightarrow> nat \<Rightarrow> receiver list \<Rightarrow> receiver list" where
  "expired_receivers G i [] = []"
| "expired_receivers G i (rcvr # rcvrs) =
     (if pgp_key_public (user rcvr) \<noteq> [] \<and> pgp_key_expiration (user rcvr) \<noteq> datetime_null G
      then (if pgp_key_expiration (user rcvr) < clock G i
            then rcvr # expired_receivers G (i + 1) rcvrs
            else expired_receivers G (i + 2) rcvrs)
      else expired_receivers G i rcvrs)"

text \<open>A clock, settings and three receivers for the concrete run below.\<close>

definition example_pgp_env :: "string pgp_env" where
  "example_pgp_env =
     \<lparr> allow_unencrypted = True, default_language = ''en'', datetime_null = 0,
       admin_serialize_receiver = (\<lambda>r language. receiver_id r),
       clock = (\<lambda>i. 1000 + int i) \<rparr>"

definition example_receivers :: "receiver list" where
  "example_receivers =
     [\<lparr> receiver_id = ''r1'',
        user = \<lparr> pgp_key_public = ''key'', pgp_key_expiration = 500, pgp_key_status = ''enabled'' \<rparr> \<rparr>,
      \<lparr> receiver_id = ''r2'',
        user = \<lparr> pgp_key_public = ''key'', pgp_key_expiration = 5000, pgp_key_status = ''enabled'' \<rparr> \<rparr>,
      \<lparr> receiver_id = ''r3'',
        user = \<lparr> pgp_key_public = '''', pgp_key_expiration = 500, pgp_key_status = ''disabled'' \<rparr> \<rparr>]"

text \<open>A clock that is read 20 days later at its second reading, and a receiver whose key
  expires one day after the first reading.\<close>

definition jumping_clock_env :: "string pgp_env" where
  "jumping_clock_env =
     \<lparr> allow_unencrypted = True, default_language = ''en'', datetime_null = 0,
       admin_serialize_receiver = (\<lambda>r language. receiver_id r),
       clock = (\<lambda>i. if i = 0 then 1000 else 1000 + 20 * 86400 * 1000000) \<rparr>"

definition unexpired_receiver :: receiver where
  "unexpired_receiver =
     \<lparr> receiver_id = ''r2'',
       user = \<lparr> pgp_key_public = ''key'', pgp_key_expiration = 1000 + 86400 * 1000000,
                pgp_key_status = ''enabled'' \<rparr> \<rparr>"

text \<open>A tenant, an environment and a handler for the concrete runs below.\<close>

definition example_tenant :: tenant where
  "example_tenant =
     \<lparr> basic_auth_enabled = False, basic_auth_username = ''u'', basic_auth_password = ''p'',
       maximum_filesize = 1, admin_api_token_digest = '''' \<rparr>"

definition example_session :: session where
  "example_session = \<lparr> session_tid = 2, user_role = ''receiver'', user_id = ''r1'' \<rparr>"

definition huge_size_text :: string where
  "huge_size_text = CHR ''1'' # replicate 400 (CHR ''0'')"

definition huge_size :: int where
  "huge_size = 10 ^ 400"

definition example_env :: env where
  "example_env =
     \<lparr> api_token_len = 4, side_channels_guard = 150, tmp_path = ''/tmp'',
       Sessions_get = (\<lambda>sid. if sid = ''abc'' then Some example_session else None),
       sha512 = (\<lambda>t. t), utf8_decode = Some, b64decode = Some,
       parse_int = (\<lambda>s. if s = ''1048576'' then Some 1048576
                        else if s = ''6291456'' then Some 6291456
                        else if s = huge_size_text then Some huge_size else None),
       guess_type = (\<lambda>n. None), basename = (\<lambda>p. p), new_filepath = (\<lambda>p. p @ ''/f''),
       datetime_now = 2100000 \<rparr>"

definition example_request :: request where
  "example_request =
     \<lparr> req_tid = 1, headers = [''x-session'' \<mapsto> ''abc''], args = Map.empty,
       response_headers = [], start_time = 0, execution_time = None \<rparr>"

definition example_state :: state where
  "example_state =
     \<lparr> tenant_cache = [1 \<mapsto> example_tenant, 2 \<mapsto> example_tenant], api_token_session = None,
       TempUploadFiles = Map.empty \<rparr>"

definition example_handler :: handler where
  "example_handler =
     \<lparr> name = ''Handler'', state = example_state, request = example_request,
       handler_exec_time_threshold = 120, uniform_answer_time = True,
       bypass_basic_auth = False, cached_current_user = None, uploaded_file = None \<rparr>"







section \<open>Primitive templates\<close>

text \<open>
  Claim C4 says that the boolean template accepts exactly the texts \<open>true\<close> and
  \<open>false\<close> and rejects boolean-typed values. In the code the test for the two texts
  falls through to \<^verbatim>\<open>isinstance(value, bool)\<close>, so \<^verbatim>\<open>True\<close> is accepted: the claim
  fails at the value \<^verbatim>\<open>True\<close>.
\<close>

theorem C4_bool_value_accepted:
  "validate_python_type example_lib (VBool True) PyBool
   \<and> VBool True \<noteq> VStr ''true'' \<and> VBool True \<noteq> VStr ''false''"
  by (simp add: validate_python_type_def)

text \<open>
  Claim C4, amended: against the boolean template \<open>validate_python_type\<close> accepts exactly
  \<^verbatim>\<open>None\<close>, the texts \<open>true\<close> and \<open>false\<close> (case-sensitive) and the boolean-typed
  values; every other value fails.
\<close>

theorem C4_validate_python_type_bool:
  "validate_python_type L v PyBool
   \<longleftrightarrow> (v = VNone \<or> v = VStr ''true'' \<or> v = VStr ''false'' \<or> v = VBool True \<or> v = VBool False)"
  by (cases v) (auto simp: validate_python_type_def)

text \<open>
  Claim C5 says that \<open>validate_type\<close> accepts \<^verbatim>\<open>None\<close> against every template. The
  first branch of \<open>validate_type\<close> catches \<^verbatim>\<open>None\<close>, logs an error and leaves the result
  \<^verbatim>\<open>False\<close>: the claim fails against the integer template.
\<close>

theorem C5_none_rejected:
  "validate_type example_lib VNone (TType PyInt) = Inr (False, VNone)"
  by simp

text \<open>
  Claim C5, amended: \<open>validate_python_type\<close> accepts \<^verbatim>\<open>None\<close> against every primitive
  type, but \<open>validate_type\<close>, through which every field is checked, returns \<^verbatim>\<open>False\<close>
  for \<^verbatim>\<open>None\<close> against every template kind (primitive type, regular expression,
  nested mapping, list) and leaves the value as it is.
\<close>

theorem C5_validate_type_none:
  "validate_python_type L VNone p \<and> validate_type L VNone t = Inr (False, VNone)"
  by (cases t) (simp_all add: validate_python_type_def)

section \<open>Mapping templates\<close>

text \<open>
  Claim C1 says that validating a mapping payload against a mapping template either raises
  an \<^verbatim>\<open>InputValidationError\<close> or succeeds with exactly the keys of the template. With the
  template \<^verbatim>\<open>{"a": {"b": int}}\<close> and the payload \<^verbatim>\<open>{"a": 5}\<close>, \<open>validate_type\<close> hands the
  integer to \<open>validate_jmessage\<close>, whose dict branch calls \<^verbatim>\<open>jmessage.items()\<close> without
  testing that the message is a dict: the request ends in an \<^verbatim>\<open>AttributeError\<close>, neither
  of the two outcomes. (The last branch of \<open>validate_jmessage\<close>, "expected dict or list",
  tests the template and not the message.)
\<close>

theorem C1_nested_value_not_a_mapping:
  "validate_jmessage example_lib (VDict [(''a'', VInt 5)])
     (TDict [(''a'', TDict [(''b'', TType PyInt)])]) = Inl AttributeError
   \<and> validate_message example_lib ''payload''
     (TDict [(''a'', TDict [(''b'', TType PyInt)])]) = Inl AttributeError"
  by (simp add: validate_message_def example_lib_def)

section \<open>The two passes over a mapping\<close>

lemma first_pass_shape:
  "first_pass L kvs T = Inr (n, keys_to_strip, kvs1) \<Longrightarrow>
     map fst kvs1 = map fst kvs
     \<and> keys_to_strip = filter (\<lambda>k. map_of T k = None) (map fst kvs)
     \<and> n = length (filter (\<lambda>k. map_of T k \<noteq> None) (map fst kvs))"
proof (induction kvs arbitrary: n keys_to_strip kvs1)
  case Nil
  then show ?case by simp
next
  case (Cons kv kvs)
  obtain key v where kv: "kv = (key, v)" by (cases kv)
  show ?case
  proof (cases "map_of T key")
    case None
    with Cons.prems kv obtain n' s' r' where
      r: "first_pass L kvs T = Inr (n', s', r')"
      and e: "n = n'" "keys_to_strip = key # s'" "kvs1 = (key, v) # r'"
      by (auto split: sum.splits)
    from Cons.IH [OF r] e None kv show ?thesis by simp
  next
    case (Some tk)
    with Cons.prems kv obtain b v' n' s' r' where
      r: "first_pass L kvs T = Inr (n', s', r')"
      and e: "n = Suc n'" "keys_to_strip = s'" "kvs1 = (key, v') # r'"
      by (auto split: sum.splits if_splits)
    from Cons.IH [OF r] e Some kv show ?thesis by simp
  qed
qed

lemma update_present_keys:
  "map_of kvs key = Some v \<Longrightarrow> map fst (AList.update key v' kvs) = map fst kvs"
  by (induction kvs) (auto split: if_splits)

lemma update_values:
  "kv \<in> set (AList.update key v kvs) \<Longrightarrow> kv = (key, v) \<or> kv \<in> set kvs"
  by (induction kvs) (auto split: if_splits)

lemma second_pass_shape:
  "second_pass L kvs T = Inr (n, kvs') \<Longrightarrow>
     n = length T \<and> map fst kvs' = map fst kvs \<and> set (map fst T) \<subseteq> set (map fst kvs)"
proof (induction T arbitrary: kvs n kvs')
  case Nil
  then show ?case by simp
next
  case (Cons kt T)
  obtain key tv where kt: "kt = (key, tv)" by (cases kt)
  from Cons.prems kt obtain v v'' n' where
    v: "map_of kvs key = Some v"
    and r: "second_pass L (AList.update key v'' kvs) T = Inr (n', kvs')"
    and n: "n = Suc n'"
    by (auto split: option.splits sum.splits if_splits)
  have keys: "map fst (AList.update key v'' kvs) = map fst kvs"
    using v by (rule update_present_keys)
  have "key \<in> set (map fst kvs)"
    using v by (metis map_of_eq_None_iff option.distinct(1) set_map)
  with Cons.IH [OF r] keys n kt show ?case by simp
qed

text \<open>The two counts: when both passes succeed on a dict with distinct keys, each of them
  has counted every key of the template once.\<close>

lemma success_counter:
  assumes "distinct (map fst kvs)" and "distinct (map fst T)"
    and "first_pass L kvs T = Inr (n1, keys_to_strip, kvs1)"
    and "second_pass L (strip_keys keys_to_strip kvs1) T = Inr (n2, kvs2)"
  shows "n1 = length T \<and> n2 = length T
         \<and> set (map fst kvs2) = set (map fst T) \<and> distinct (map fst kvs2)"
proof -
  let ?keys = "map fst kvs"
  let ?kept = "filter (\<lambda>k. map_of T k \<noteq> None) ?keys"
  from first_pass_shape [OF assms(3)]
  have k1: "map fst kvs1 = ?keys"
    and strip: "keys_to_strip = filter (\<lambda>k. map_of T k = None) ?keys"
    and n1: "n1 = length ?kept"
    by simp_all
  have "map fst (strip_keys keys_to_strip kvs1)
        = filter (\<lambda>k. k \<notin> set keys_to_strip) (map fst kvs1)"
    by (simp add: strip_keys_def filter_map comp_def)
  also have "\<dots> = ?kept"
    unfolding k1 strip by (rule filter_cong) auto
  finally have kept: "map fst (strip_keys keys_to_strip kvs1) = ?kept" .
  from second_pass_shape [OF assms(4)]
  have n2: "n2 = length T" and k2: "map fst kvs2 = ?kept" and sub: "set (map fst T) \<subseteq> set ?kept"
    by (simp_all add: kept)
  have "set ?kept \<subseteq> set (map fst T)"
    by (auto simp: map_of_eq_None_iff)
  with sub have eq: "set ?kept = set (map fst T)" by blast
  have d: "distinct ?kept" using assms(1) by simp
  have "card (set ?kept) = length ?kept"
    using d by (rule distinct_card)
  then have "length ?kept = card (set ?kept)"
    by (rule sym)
  also have "\<dots> = card (set (map fst T))" by (simp only: eq)
  also have "\<dots> = length (map fst T)"
    using assms(2) by (rule distinct_card)
  finally have "length ?kept = length T" by simp
  with n1 n2 k2 eq d show ?thesis by simp
qed

section \<open>Well-formed payloads stay well-formed, and the counter check never fires\<close>

lemma iter_value_wf:
  "iter_value v = Inr xs \<Longrightarrow> wf_value v \<Longrightarrow> \<forall>x \<in> set xs. wf_value x"
  by (cases v) auto

lemma strip_keys_values:
  "kv \<in> set (strip_keys ks kvs) \<Longrightarrow> kv \<in> set kvs"
  by (simp add: strip_keys_def)

lemma validator_wf:
  shows "wf_value v \<Longrightarrow> wf_template t \<Longrightarrow>
           validate_type L v t \<noteq> Inl (InputValidationError SuccessCounterFailure)
           \<and> (\<forall>b v'. validate_type L v t = Inr (b, v') \<longrightarrow> wf_value v')"
    and "wf_value jm \<Longrightarrow> wf_template t \<Longrightarrow>
           validate_jmessage L jm t \<noteq> Inl (InputValidationError SuccessCounterFailure)
           \<and> (\<forall>b v'. validate_jmessage L jm t = Inr (b, v') \<longrightarrow> wf_value v')"
    and "\<forall>x \<in> set xs. wf_value x \<Longrightarrow> \<forall>t \<in> set ts. wf_template t \<Longrightarrow>
           all_validate L xs ts \<noteq> Inl (InputValidationError SuccessCounterFailure)
           \<and> (\<forall>b xs'. all_validate L xs ts = Inr (b, xs') \<longrightarrow> (\<forall>x \<in> set xs'. wf_value x))"
    and "\<forall>kv \<in> set kvs. wf_value (snd kv) \<Longrightarrow> \<forall>kt \<in> set T. wf_template (snd kt) \<Longrightarrow>
           first_pass L kvs T \<noteq> Inl (InputValidationError SuccessCounterFailure)
           \<and> (\<forall>n s kvs1. first_pass L kvs T = Inr (n, s, kvs1)
                  \<longrightarrow> (\<forall>kv \<in> set kvs1. wf_value (snd kv)))"
    and "\<forall>kv \<in> set kvs. wf_value (snd kv) \<Longrightarrow> \<forall>kt \<in> set T. wf_template (snd kt) \<Longrightarrow>
           second_pass L kvs T \<noteq> Inl (InputValidationError SuccessCounterFailure)
           \<and> (\<forall>n kvs2. second_pass L kvs T = Inr (n, kvs2)
                  \<longrightarrow> (\<forall>kv \<in> set kvs2. wf_value (snd kv)))"
proof (induction L v t and L jm t and L xs ts and L kvs T and L kvs T
    rule: validate_type_validate_jmessage_all_validate_first_pass_second_pass.induct)
  case (1 L v p)
  then show ?case by simp
next
  case (2 L v T)
  then show ?case by (cases "v = VNone") simp_all
next
  case (3 L v r)
  then show ?case by simp
next
  case (4 L v ts)
  have ts: "\<forall>t \<in> set ts. wf_template t"
    using "4.prems"(2) by simp
  show ?case
  proof (cases "v = VNone \<or> \<not> truthy v")
    case True
    then show ?thesis using "4.prems"(1) by auto
  next
    case False
    then have nn: "v \<noteq> VNone" and tr: "\<not> \<not> truthy v" by simp_all
    show ?thesis
    proof (cases v)
      case (VList xs)
      have "\<forall>x \<in> set xs. wf_value x"
        using "4.prems"(1) VList by simp
      from "4.IH"(6) [OF nn tr VList this ts] nn tr VList show ?thesis
        by (auto split: sum.splits)
    next
      case VNone
      with nn show ?thesis by simp
    next
      case (VBool x)
      then show ?thesis using nn tr by simp
    next
      case (VInt x)
      then show ?thesis using nn tr by simp
    next
      case (VFloat x)
      then show ?thesis using nn tr by simp
    next
      case (VStr s)
      have items: "iter_value v = Inr (map (\<lambda>c. VStr [c]) s)"
        using VStr by simp
      have "\<forall>x \<in> set (map (\<lambda>c. VStr [c]) s). wf_value x" by simp
      from "4.IH"(5) [OF nn tr VStr items this ts] nn tr VStr "4.prems"(1) show ?thesis
        by (auto split: sum.splits)
    next
      case (VDict kvs)
      have items: "iter_value v = Inr (map (\<lambda>kv. VStr (fst kv)) kvs)"
        using VDict by simp
      have "\<forall>x \<in> set (map (\<lambda>kv. VStr (fst kv)) kvs). wf_value x" by simp
      from "4.IH"(7) [OF nn tr VDict items this ts] nn tr VDict "4.prems"(1) show ?thesis
        by (auto split: sum.splits)
    qed
  qed
next
  case (5 L jmessage T)
  have dT: "distinct (map fst T)" and wT: "\<forall>kt \<in> set T. wf_template (snd kt)"
    using "5.prems"(2) by simp_all
  show ?case
  proof (cases jmessage)
    case (VDict kvs)
    have dk: "distinct (map fst kvs)" and wk: "\<forall>kv \<in> set kvs. wf_value (snd kv)"
      using "5.prems"(1) VDict by simp_all
    note fp = "5.IH"(1) [OF VDict wk wT]
    show ?thesis
    proof (cases "first_pass L kvs T")
      case (Inl e)
      with fp VDict show ?thesis by simp
    next
      case (Inr r1)
      obtain n1 keys_to_strip kvs1 where r1: "r1 = (n1, keys_to_strip, kvs1)"
        by (cases r1) auto
      have w1: "\<forall>kv \<in> set (strip_keys keys_to_strip kvs1). wf_value (snd kv)"
        using fp Inr r1 strip_keys_values by blast
      have f1: "first_pass L kvs T = Inr (n1, keys_to_strip, kvs1)"
        using Inr r1 by simp
      note sp = "5.IH"(2) [OF VDict Inr r1 [symmetric] refl w1 wT]
      show ?thesis
      proof (cases "second_pass L (strip_keys keys_to_strip kvs1) T")
        case (Inl e)
        with sp VDict f1 show ?thesis by simp
      next
        case (Inr r2)
        obtain n2 kvs2 where r2: "r2 = (n2, kvs2)" by (cases r2)
        have f2: "second_pass L (strip_keys keys_to_strip kvs1) T = Inr (n2, kvs2)"
          using Inr r2 by simp
        from success_counter [OF dk dT f1 f2]
        have "n1 + n2 = length T * 2" and "distinct (map fst kvs2)" by simp_all
        moreover have "\<forall>kv \<in> set kvs2. wf_value (snd kv)"
          using sp f2 by blast
        ultimately show ?thesis
          using VDict f1 f2 by simp
      qed
    qed
  qed simp_all
next
  case (6 L jmessage ts)
  have ts: "\<forall>t \<in> set ts. wf_template t"
    using "6.prems"(2) by simp
  show ?case
  proof (cases jmessage)
    case (VList xs)
    have "\<forall>x \<in> set xs. wf_value x"
      using "6.prems"(1) VList by simp
    from "6.IH"(6) [OF VList this ts] VList show ?thesis
      by (auto split: sum.splits)
  next
    case (VStr s)
    have items: "iter_value jmessage = Inr (map (\<lambda>c. VStr [c]) s)"
      using VStr by simp
    have "\<forall>x \<in> set (map (\<lambda>c. VStr [c]) s). wf_value x" by simp
    from "6.IH"(5) [OF VStr items this ts] VStr show ?thesis
      by (auto split: sum.splits)
  next
    case (VDict kvs)
    have items: "iter_value jmessage = Inr (map (\<lambda>kv. VStr (fst kv)) kvs)"
      using VDict by simp
    have "\<forall>x \<in> set (map (\<lambda>kv. VStr (fst kv)) kvs). wf_value x" by simp
    from "6.IH"(7) [OF VDict items this ts] VDict "6.prems"(1) show ?thesis
      by (auto split: sum.splits)
  qed simp_all
next
  case (7 L jmessage p)
  then show ?case by simp
next
  case (8 L jmessage r)
  then show ?case by simp
next
  case (9 L ts)
  then show ?case by simp
next
  case (10 L x xs)
  then show ?case by simp
next
  case (11 L x xs t0 ts)
  have wx: "wf_value x" and wxs: "\<forall>x \<in> set xs. wf_value x"
    and wt: "wf_template t0"
    using "11.prems" by simp_all
  note head = "11.IH"(1) [OF wx wt]
  show ?case
  proof (cases "validate_type L x t0")
    case (Inl e)
    with head show ?thesis by simp
  next
    case (Inr r)
    obtain b x' where r: "r = (b, x')" by (cases r)
    have wx': "wf_value x'" using head Inr r by simp
    show ?thesis
    proof (cases b)
      case False
      with Inr r wx' wxs show ?thesis by simp
    next
      case True
      then have nb: "\<not> \<not> b" by simp
      from "11.IH"(2) [OF Inr r [symmetric] nb wxs "11.prems"(2)] Inr r True wx'
      show ?thesis by (auto split: sum.splits)
    qed
  qed
next
  case (12 L T)
  then show ?case by simp
next
  case (13 L key v rest T)
  have wv: "wf_value v" and wr: "\<forall>kv \<in> set rest. wf_value (snd kv)"
    using "13.prems"(1) by simp_all
  show ?case
  proof (cases "map_of T key")
    case None
    from "13.IH"(1) [OF None wr "13.prems"(2)] None wv show ?thesis
      by (auto split: sum.splits)
  next
    case (Some tk)
    have wtk: "wf_template tk"
      using Some "13.prems"(2) by (metis map_of_SomeD snd_conv)
    note head = "13.IH"(2) [OF Some wv wtk]
    show ?thesis
    proof (cases "validate_type L v tk")
      case (Inl e)
      with head Some show ?thesis by simp
    next
      case (Inr r)
      obtain b v' where r: "r = (b, v')" by (cases r)
      have wv': "wf_value v'" using head Inr r by simp
      show ?thesis
      proof (cases b)
        case False
        with Inr r Some show ?thesis by simp
      next
        case True
        then have nb: "\<not> \<not> b" by simp
        from "13.IH"(3) [OF Some Inr r [symmetric] nb wr "13.prems"(2)] Some Inr r True wv'
        show ?thesis by (auto split: sum.splits)
      qed
    qed
  qed
next
  case (14 L kvs)
  then show ?case by simp
next
  case (15 L kvs key tv rest)
  have wtv: "wf_template tv" and wrest: "\<forall>kt \<in> set rest. wf_template (snd kt)"
    using "15.prems"(2) by simp_all
  show ?case
  proof (cases "map_of kvs key")
    case None
    then show ?thesis by simp
  next
    case (Some v)
    have wv: "wf_value v"
      using Some "15.prems"(1) by (metis map_of_SomeD snd_conv)
    note head = "15.IH"(1) [OF Some wv wtv]
    show ?thesis
    proof (cases "validate_type L v tv")
      case (Inl e)
      with head Some show ?thesis by simp
    next
      case (Inr r)
      obtain b v' where r: "r = (b, v')" by (cases r)
      have wv': "wf_value v'" using head Inr r by simp
      show ?thesis
      proof (cases b)
        case False
        with Inr r Some show ?thesis by simp
      next
        case True
        then have nb: "\<not> \<not> b" by simp
        let ?inner = "if nonempty_dict_or_list tv then validate_jmessage L v' tv
                      else Inr (True, v')"
        have inner: "?inner \<noteq> Inl (InputValidationError SuccessCounterFailure)
                     \<and> (\<forall>b' v''. ?inner = Inr (b', v'') \<longrightarrow> wf_value v'')"
        proof (cases "nonempty_dict_or_list tv")
          case True
          from "15.IH"(2) [OF Some Inr r [symmetric] nb True wv' wtv] True
          show ?thesis by simp
        next
          case False
          with wv' show ?thesis by simp
        qed
        show ?thesis
        proof (cases ?inner)
          case (Inl e)
          with inner Some Inr r True show ?thesis by simp
        next
          case (Inr r')
          note inner_r = this
          obtain b' v'' where r': "r' = (b', v'')" by (cases r')
          have wv'': "wf_value v''" using inner inner_r r' by simp
          have wu: "\<forall>kv \<in> set (AList.update key v'' kvs). wf_value (snd kv)"
            using wv'' "15.prems"(1) update_values by fastforce
          from "15.IH"(3) [OF Some \<open>validate_type L v tv = Inr r\<close> r [symmetric] nb inner_r
              r' [symmetric] wu wrest]
            Some \<open>validate_type L v tv = Inr r\<close> r True inner_r r'
          show ?thesis by (auto split: sum.splits)
        qed
      qed
    qed
  qed
qed

text \<open>When the validation of a mapping succeeds, the payload is left with exactly the keys of
  the template; a payload that lacks a key of the template is never accepted.\<close>

lemma validate_jmessage_keys:
  assumes "wf_value (VDict kvs)" and "wf_template (TDict T)"
    and "validate_jmessage L (VDict kvs) (TDict T) = Inr (b, v')"
  shows "b \<and> (\<exists>kvs2. v' = VDict kvs2 \<and> set (map fst kvs2) = set (map fst T)
                \<and> distinct (map fst kvs2))
         \<and> set (map fst T) \<subseteq> set (map fst kvs)"
proof -
  from assms(3) obtain n1 keys_to_strip kvs1 n2 kvs2 where
    f1: "first_pass L kvs T = Inr (n1, keys_to_strip, kvs1)"
    and f2: "second_pass L (strip_keys keys_to_strip kvs1) T = Inr (n2, kvs2)"
    and res: "b" "v' = VDict kvs2"
    by (auto split: sum.splits if_splits)
  have d: "distinct (map fst kvs)" "distinct (map fst T)"
    using assms(1,2) by simp_all
  from success_counter [OF d f1 f2]
  have keys: "set (map fst kvs2) = set (map fst T)" "distinct (map fst kvs2)"
    by simp_all
  have "map fst kvs2 = map fst (strip_keys keys_to_strip kvs1)"
    using second_pass_shape [OF f2] by simp
  moreover have "set (map fst (strip_keys keys_to_strip kvs1)) \<subseteq> set (map fst kvs1)"
    by (auto simp: strip_keys_def)
  moreover have "map fst kvs1 = map fst kvs"
    using first_pass_shape [OF f1] by simp
  ultimately have "set (map fst T) \<subseteq> set (map fst kvs)"
    using keys(1) by simp
  with res keys show ?thesis by simp
qed

text \<open>
  Claim C8: for every mapping payload and mapping template, when every per-key check of
  both passes has succeeded, the success counter is exactly twice the number of keys of
  the template; so the branch "Success counter double check failure" of
  \<open>validate_jmessage\<close> is not reached, for any payload and template, at any depth of the
  recursion. (Payload and template are Python values: their dicts have distinct keys.)
\<close>

theorem C8_success_counter_never_fails:
  assumes "wf_value jmessage" and "wf_template message_template"
  shows "validate_jmessage L jmessage message_template
           \<noteq> Inl (InputValidationError SuccessCounterFailure)
    \<and> (jmessage = VDict kvs \<and> message_template = TDict T
        \<and> first_pass L kvs T = Inr (n1, keys_to_strip, kvs1)
        \<and> second_pass L (strip_keys keys_to_strip kvs1) T = Inr (n2, kvs2)
        \<longrightarrow> n1 + n2 = length T * 2)"
proof
  show "validate_jmessage L jmessage message_template
          \<noteq> Inl (InputValidationError SuccessCounterFailure)"
    using validator_wf(2) [OF assms] by simp
  show "jmessage = VDict kvs \<and> message_template = TDict T
        \<and> first_pass L kvs T = Inr (n1, keys_to_strip, kvs1)
        \<and> second_pass L (strip_keys keys_to_strip kvs1) T = Inr (n2, kvs2)
        \<longrightarrow> n1 + n2 = length T * 2"
  proof
    assume a: "jmessage = VDict kvs \<and> message_template = TDict T
        \<and> first_pass L kvs T = Inr (n1, keys_to_strip, kvs1)
        \<and> second_pass L (strip_keys keys_to_strip kvs1) T = Inr (n2, kvs2)"
    then have d: "distinct (map fst kvs)" "distinct (map fst T)"
      using assms by simp_all
    from a have f1: "first_pass L kvs T = Inr (n1, keys_to_strip, kvs1)"
      and f2: "second_pass L (strip_keys keys_to_strip kvs1) T = Inr (n2, kvs2)"
      by simp_all
    from success_counter [OF d f1 f2] show "n1 + n2 = length T * 2"
      by simp
  qed
qed

theorem C8_success_counter_never_fails_witness:
  "wf_value (VDict [(''a'', VInt 5), (''extra'', VStr ''x'')])
   \<and> wf_template (TDict [(''a'', TType PyInt)])
   \<and> first_pass example_lib [(''a'', VInt 5), (''extra'', VStr ''x'')] [(''a'', TType PyInt)]
       = Inr (1, [''extra''], [(''a'', VInt 5), (''extra'', VStr ''x'')])
   \<and> second_pass example_lib
         (strip_keys [''extra''] [(''a'', VInt 5), (''extra'', VStr ''x'')]) [(''a'', TType PyInt)]
       = Inr (1, [(''a'', VInt 5)])
   \<and> (1::nat) + 1 = length [(''a'', TType PyInt)] * 2
   \<and> validate_jmessage example_lib (VDict [(''a'', VInt 5), (''extra'', VStr ''x'')])
         (TDict [(''a'', TType PyInt)])
       = Inr (True, VDict [(''a'', VInt 5)])"
proof -
  have w: "wf_value (VDict [(''a'', VInt 5), (''extra'', VStr ''x'')])"
    and t: "wf_template (TDict [(''a'', TType PyInt)])"
    by simp_all
  have f1: "first_pass example_lib [(''a'', VInt 5), (''extra'', VStr ''x'')] [(''a'', TType PyInt)]
            = Inr (1, [''extra''], [(''a'', VInt 5), (''extra'', VStr ''x'')])"
    by (simp add: validate_python_type_def)
  have f2: "second_pass example_lib
              (strip_keys [''extra''] [(''a'', VInt 5), (''extra'', VStr ''x'')])
              [(''a'', TType PyInt)]
            = Inr (1, [(''a'', VInt 5)])"
    by (simp add: strip_keys_def validate_python_type_def)
  have run: "validate_jmessage example_lib (VDict [(''a'', VInt 5), (''extra'', VStr ''x'')])
               (TDict [(''a'', TType PyInt)])
             = Inr (True, VDict [(''a'', VInt 5)])"
    by (simp add: strip_keys_def validate_python_type_def)
  from C8_success_counter_never_fails [OF w t, of example_lib
      "[(''a'', VInt 5), (''extra'', VStr ''x'')]" "[(''a'', TType PyInt)]"
      1 "[''extra'']" "[(''a'', VInt 5), (''extra'', VStr ''x'')]" 1 "[(''a'', VInt 5)]"]
    w t f1 f2 run
  show ?thesis by simp
qed

section \<open>Identity resolution and the role gate\<close>

lemma get_api_session_example:
  "get_api_session example_env example_handler = Inr None"
  by (simp add: get_api_session_def example_env_def example_handler_def example_request_def)

text \<open>
  Claim C2: when the session registry holds a session under the id sent in the
  \<^verbatim>\<open>x-session\<close> header and the tenant id of that session differs from the tenant id of the
  request, the session is discarded; if the API-token channel gives no identity either,
  \<open>get_current_user\<close> returns no identity.
\<close>

theorem C2_cross_tenant_session_discarded:
  assumes "get_api_session E self = Inr None"
    and "headers (request self) ''x-session'' = Some session_id"
    and "utf8_decode E session_id = Some sid"
    and "Sessions_get E sid = Some s"
    and "session_tid s \<noteq> req_tid (request self)"
  shows "get_current_user E self = Inr None"
  using assms by (simp add: get_current_user_def)

theorem C2_cross_tenant_session_discarded_witness:
  "get_api_session example_env example_handler = Inr None
   \<and> headers (request example_handler) ''x-session'' = Some ''abc''
   \<and> utf8_decode example_env ''abc'' = Some ''abc''
   \<and> Sessions_get example_env ''abc'' = Some example_session
   \<and> session_tid example_session \<noteq> req_tid (request example_handler)
   \<and> get_current_user example_env example_handler = Inr None"
proof -
  have a: "get_api_session example_env example_handler = Inr None"
    by (rule get_api_session_example)
  have b: "headers (request example_handler) ''x-session'' = Some ''abc''"
    by (simp add: example_handler_def example_request_def)
  have c: "utf8_decode example_env ''abc'' = Some ''abc''"
    by (simp add: example_env_def)
  have d: "Sessions_get example_env ''abc'' = Some example_session"
    by (simp add: example_env_def)
  have e: "session_tid example_session \<noteq> req_tid (request example_handler)"
    by (simp add: example_session_def example_handler_def example_request_def)
  from C2_cross_tenant_session_discarded [OF a b c d e] a b c d e show ?thesis
    by simp
qed

lemma basic_auth_passes_unchanged:
  "basic_auth E self = (self', Inr u) \<Longrightarrow> self' = self"
  by (auto simp: basic_auth_def split: option.splits sum.splits list.splits if_splits prod.splits)

text \<open>When the challenge is enabled and not bypassed, whatever \<open>basic_auth\<close> raises leaves
  the wrapper, before the allow-list is looked at.\<close>

lemma decorator_raises_what_basic_auth_raises:
  assumes "tenant_cache (state self) (req_tid (request self)) = Some tc"
    and "basic_auth_enabled tc" and "\<not> bypass_basic_auth self"
    and "basic_auth E self = (self1, Inl e)"
  shows "decorator_authentication E f roles self = (self1, Inl e)"
  using assms by (simp add: decorator_authentication_def)

text \<open>
  Claim C6 says that a handler whose allow-list contains \<open>*\<close> never raises at the gate,
  whatever the identity. The wrapper first runs the basic-auth challenge of the tenant:
  with basic auth enabled, not bypassed, and no \<^verbatim>\<open>authorization\<close> header, the gate raises
  \<^verbatim>\<open>HTTPAuthenticationRequired\<close> although the allow-list is \<open>*\<close>.
\<close>

theorem C6_star_gate_raises_under_basic_auth:
  "snd (decorator_authentication example_env (\<lambda>h. (h, Inr ())) [''*'']
         (example_handler\<lparr>state := example_state\<lparr>tenant_cache :=
            [1 \<mapsto> example_tenant\<lparr>basic_auth_enabled := True\<rparr>]\<rparr>\<rparr>))
   = Inl HTTPAuthenticationRequired"
  by (simp add: decorator_authentication_def basic_auth_def example_handler_def
      example_state_def example_request_def example_tenant_def)

text \<open>
  Claim C6, amended: when the basic-auth challenge of the tenant is disabled, bypassed or
  passed, then a handler whose allow-list contains \<open>*\<close> runs its body whatever the
  identity; with the allow-list \<^verbatim>\<open>['admin']\<close> an authenticated caller whose role is not
  admin raises \<^verbatim>\<open>InvalidAuthentication\<close> and an unauthenticated caller raises
  \<^verbatim>\<open>NotAuthenticated\<close>.
\<close>

theorem C6_role_gate:
  assumes "tenant_cache (state self) (req_tid (request self)) = Some tc"
    and "\<not> basic_auth_enabled tc \<or> bypass_basic_auth self \<or> basic_auth E self = (self, Inr ())"
  shows "(''*'' \<in> set roles \<longrightarrow> decorator_authentication E f roles self = f self)
    \<and> (current_user E self = (self', Inr (Some s)) \<and> user_role s \<noteq> ''admin''
         \<longrightarrow> decorator_authentication E f [''admin''] self = (self', Inl InvalidAuthentication))
    \<and> (current_user E self = (self', Inr None)
         \<longrightarrow> decorator_authentication E f [''admin''] self = (self', Inl NotAuthenticated))"
proof -
  have gate: "(if basic_auth_enabled tc \<and> \<not> bypass_basic_auth self then basic_auth E self
               else (self, Inr ())) = (self, Inr ())"
    using assms(2) by auto
  show ?thesis
    by (simp add: decorator_authentication_def assms(1) gate)
qed

lemma get_current_user_example:
  "get_current_user example_env example_handler = Inr None"
  by (simp add: get_current_user_def get_api_session_example)
     (simp add: example_env_def example_handler_def example_request_def example_session_def)

lemma cached_current_user_example: "cached_current_user example_handler = None"
  by (simp add: example_handler_def)

lemma current_user_example:
  "current_user example_env example_handler
   = (example_handler\<lparr>cached_current_user := Some None\<rparr>, Inr None)"
  by (simp add: current_user_def get_current_user_example cached_current_user_example)

lemma current_user_example_other_tenant:
  "current_user example_env (example_handler\<lparr>request := example_request\<lparr>req_tid := 2\<rparr>\<rparr>)
   = (example_handler\<lparr>request := example_request\<lparr>req_tid := 2\<rparr>,
                      cached_current_user := Some (Some example_session)\<rparr>,
      Inr (Some example_session))"
  by (simp add: current_user_def get_current_user_def get_api_session_def
      example_env_def example_handler_def example_request_def example_session_def)

theorem C6_role_gate_witness:
  "tenant_cache (state example_handler) (req_tid (request example_handler)) = Some example_tenant
   \<and> \<not> basic_auth_enabled example_tenant
   \<and> decorator_authentication example_env (\<lambda>h. (h, Inr ())) [''*''] example_handler
       = (example_handler, Inr ())
   \<and> decorator_authentication example_env (\<lambda>h. (h, Inr ())) [''admin''] example_handler
       = (example_handler\<lparr>cached_current_user := Some None\<rparr>, Inl NotAuthenticated)
   \<and> user_role example_session \<noteq> ''admin''
   \<and> decorator_authentication example_env (\<lambda>h. (h, Inr ())) [''admin'']
         (example_handler\<lparr>request := example_request\<lparr>req_tid := 2\<rparr>\<rparr>)
       = (example_handler\<lparr>request := example_request\<lparr>req_tid := 2\<rparr>,
                          cached_current_user := Some (Some example_session)\<rparr>,
          Inl InvalidAuthentication)"
proof -
  let ?h2 = "example_handler\<lparr>request := example_request\<lparr>req_tid := 2\<rparr>\<rparr>"
  have t1: "tenant_cache (state example_handler) (req_tid (request example_handler))
            = Some example_tenant"
    by (simp add: example_handler_def example_state_def example_request_def)
  have t2: "tenant_cache (state ?h2) (req_tid (request ?h2)) = Some example_tenant"
    by (simp add: example_handler_def example_state_def example_request_def)
  have off: "\<not> basic_auth_enabled example_tenant"
    by (simp add: example_tenant_def)
  have role: "user_role example_session \<noteq> ''admin''"
    by (simp add: example_session_def)
  have g1: "\<not> basic_auth_enabled example_tenant \<or> bypass_basic_auth example_handler
            \<or> basic_auth example_env example_handler = (example_handler, Inr ())"
    using off by simp
  have g2: "\<not> basic_auth_enabled example_tenant \<or> bypass_basic_auth ?h2
            \<or> basic_auth example_env ?h2 = (?h2, Inr ())"
    using off by simp
  note a = C6_role_gate [OF t1 g1, where roles = "[''*'']" and f = "\<lambda>h. (h, Inr ())"
      and self' = "example_handler\<lparr>cached_current_user := Some None\<rparr>" and s = example_session]
  note b = C6_role_gate [OF t2 g2, where roles = "[''*'']" and f = "\<lambda>h. (h, Inr ())"
      and self' = "?h2\<lparr>cached_current_user := Some (Some example_session)\<rparr>"
      and s = example_session]
  from a b current_user_example current_user_example_other_tenant t1 off role
  show ?thesis by simp
qed

section \<open>The size gate of the upload assembler\<close>










lemma rounded_quotient: "true_div_mb (2 ^ 54 + 1) = Inr (2 ^ 34)"
  by code_simp






section \<open>The uniform answer time\<close>

text \<open>
  Claim C7: on a handler flagged \<^verbatim>\<open>uniform_answer_time\<close>, \<open>execution_check\<close> delays the answer
  by the guard minus the total elapsed time when the elapsed time is below the guard, and
  adds no delay when the elapsed time is at or above the guard. The code takes
  \<^verbatim>\<open>execution_time.microseconds\<close>, the sub-second field of the \<^verbatim>\<open>timedelta\<close>, for the elapsed
  time: a request that took 2.1 seconds under a guard of 150 milliseconds is delayed by
  another 50 milliseconds.
\<close>

theorem C7_delay_above_guard:
  "snd (snd (execution_check example_env 2100000 example_handler)) = Some (1 / 20)
   \<and> side_channels_guard example_env
       \<le> of_int (2100000 - start_time (request example_handler)) / 1000"
  by (simp add: execution_check_def timedelta_of_def example_env_def example_handler_def
      example_request_def Let_def)

text \<open>Below one second the sub-second field is the whole elapsed time, and the delay is the
  guard minus the elapsed time (both in milliseconds, the delay in seconds).\<close>

lemma execution_check_below_one_second:
  assumes "uniform_answer_time self"
    and "0 \<le> now - start_time (request self)" and "now - start_time (request self) < 1000000"
  shows "snd (snd (execution_check E now self))
         = (if of_int (now - start_time (request self)) / 1000 < side_channels_guard E
            then Some ((side_channels_guard E - of_int (now - start_time (request self)) / 1000) / 1000)
            else None)"
  using assms by (simp add: execution_check_def timedelta_of_def Let_def)

section \<open>Streaming a file\<close>

lemma blocks_count_step:
  assumes "0 < b" and "0 < (n::nat)"
  shows "(n + b - 1) div b = Suc ((n - b + b - 1) div b)"
proof -
  have a: "n + b - 1 = (n - 1) + b"
    using assms by arith
  have first: "(n + b - 1) div b = Suc ((n - 1) div b)"
    unfolding a using assms(1) by simp
  have second: "(n - b + b - 1) div b = (n - 1) div b"
  proof (cases "b \<le> n")
    case True
    then have "n - b + b - 1 = n - 1" by arith
    then show ?thesis by (simp only:)
  next
    case False
    then have "n - b + b - 1 < b" and "n - 1 < b"
      using assms by arith+
    then show ?thesis by (simp only: div_less)
  qed
  show ?thesis
    by (simp only: first second)
qed

lemma blocks_count_ceiling:
  assumes "0 < (b::nat)"
  shows "int ((n + b - 1) div b) = \<lceil>(of_nat n :: rat) / of_nat b\<rceil>"
proof (rule sym, rule ceiling_unique)
  let ?q = "(n + b - 1) div b"
  have le: "?q * b \<le> n + b - 1"
    by simp
  have lt: "n + b - 1 < ?q * b + b"
    using assms by (metis add.commute dividend_less_times_div mult.commute)
  have upper: "n \<le> ?q * b"
    using lt assms by linarith
  have lower: "int ?q * int b - int b < int n"
  proof (cases "n = 0")
    case True
    then show ?thesis using assms by simp
  next
    case False
    then have "?q * b < n + b" using le by linarith
    then have "int ?q * int b < int n + int b"
      by (metis of_nat_add of_nat_less_iff of_nat_mult)
    then show ?thesis by linarith
  qed
  have bpos: "(0::rat) < of_nat b" using assms by simp
  show "of_int (int ?q) - 1 < (of_nat n :: rat) / of_nat b"
  proof -
    have "(of_int (int ?q) - 1) * (of_nat b :: rat) = of_int (int ?q * int b - int b)"
      by (simp add: algebra_simps)
    also have "\<dots> < of_int (int n)"
      using lower by (simp only: of_int_less_iff)
    finally have "(of_int (int ?q) - 1) * (of_nat b :: rat) < of_nat n" by simp
    then show ?thesis using bpos by (simp add: pos_less_divide_eq)
  qed
  show "(of_nat n :: rat) / of_nat b \<le> of_int (int ?q)"
  proof -
    have "(of_nat n :: rat) \<le> of_nat (?q * b)"
      using upper by (simp only: of_nat_le_iff)
    then have "(of_nat n :: rat) \<le> of_int (int ?q) * of_nat b" by simp
    then show ?thesis using bpos by (simp add: pos_divide_le_eq)
  qed
qed

lemma drive_registered:
  assumes "0 < b" and "has_request p" and "producer_registered ch"
  shows "\<exists>ws. drive b (p, ch)
              = Some (p\<lparr>has_request := False, fd := [], finish_fired := Suc (finish_fired p)\<rparr>,
                      ch\<lparr>writes := writes ch @ ws, producer_registered := False,
                         channel_finished := True\<rparr>)
            \<and> length ws = (length (fd p) + b - 1) div b \<and> concat ws = fd p"
  using assms(2,3)
proof (induction "length (fd p)" arbitrary: p ch rule: less_induct)
  case less
  show ?case
  proof (cases "fd p = []")
    case True
    have "drive b (p, ch)
          = Some (p\<lparr>has_request := False, fd := [], finish_fired := Suc (finish_fired p)\<rparr>,
                  ch\<lparr>writes := writes ch @ [], producer_registered := False,
                     channel_finished := True\<rparr>)"
      using less.prems True
      by (subst drive.simps, simp add: resumeProducing_def stopProducing_def)
         (subst drive.simps, simp)
    moreover have "(length (fd p) + b - 1) div b = 0"
      using True assms(1) by simp
    ultimately show ?thesis
      using True by (intro exI [of _ "[]"]) simp
  next
    case False
    let ?p1 = "p\<lparr>fd := drop b (fd p)\<rparr>"
    let ?ch1 = "ch\<lparr>writes := writes ch @ [take b (fd p)]\<rparr>"
    have data: "take b (fd p) \<noteq> []"
      using False assms(1) by simp
    have shorter: "length (fd ?p1) < length (fd p)"
      using False assms(1) by simp
    have unfold: "drive b (p, ch) = drive b (?p1, ?ch1)"
      using less.prems data
      by (subst drive.simps) (simp add: resumeProducing_def Let_def)
    have "\<exists>ws. drive b (?p1, ?ch1)
       = Some (?p1\<lparr>has_request := False, fd := [], finish_fired := Suc (finish_fired ?p1)\<rparr>,
               ?ch1\<lparr>writes := writes ?ch1 @ ws, producer_registered := False,
                   channel_finished := True\<rparr>)
       \<and> length ws = (length (fd ?p1) + b - 1) div b \<and> concat ws = fd ?p1"
      by (rule less.hyps [OF shorter]) (use less.prems in simp_all)
    then obtain ws where ws:
      "drive b (?p1, ?ch1)
       = Some (?p1\<lparr>has_request := False, fd := [], finish_fired := Suc (finish_fired ?p1)\<rparr>,
               ?ch1\<lparr>writes := writes ?ch1 @ ws, producer_registered := False,
                   channel_finished := True\<rparr>)"
      "length ws = (length (fd ?p1) + b - 1) div b" "concat ws = fd ?p1"
      by blast
    have count: "(length (fd p) + b - 1) div b = Suc ((length (fd p) - b + b - 1) div b)"
      using False assms(1) by (intro blocks_count_step) simp_all
    show ?thesis
      using unfold ws count
      by (intro exI [of _ "take b (fd p) # ws"]) simp
  qed
qed

text \<open>
  Claim C9: a file of \<open>n > 0\<close> bytes streamed with the read block size \<open>b > 0\<close>: driving
  the producer until it unregisters ends, after exactly \<open>\<lceil>n / b\<rceil>\<close> write calls on the
  response channel, which together carry the file, and the completion deferred of the
  producer is fired exactly once, on the read that returns no data; a later
  \<^verbatim>\<open>stopProducing\<close> does not fire it again.
\<close>

theorem C9_stream_file:
  assumes "0 < b" and "file_content \<noteq> []"
  shows "\<exists>p ch. drive b (start (FileProducer file_content, new_channel)) = Some (p, ch)
           \<and> int (length (writes ch)) = \<lceil>(of_nat (length file_content) :: rat) / of_nat b\<rceil>
           \<and> concat (writes ch) = file_content
           \<and> finish_fired p = 1
           \<and> finish_fired (fst (stopProducing (p, ch))) = 1
           \<and> \<not> producer_registered ch \<and> channel_finished ch"
proof -
  let ?p = "FileProducer file_content"
  let ?ch = "new_channel\<lparr>producer_registered := True\<rparr>"
  have "has_request ?p" "producer_registered ?ch"
    by (simp_all add: FileProducer_def)
  from drive_registered [OF assms(1) this]
  obtain ws where ws:
    "drive b (?p, ?ch)
     = Some (?p\<lparr>has_request := False, fd := [], finish_fired := Suc (finish_fired ?p)\<rparr>,
             ?ch\<lparr>writes := writes ?ch @ ws, producer_registered := False,
                 channel_finished := True\<rparr>)"
    "length ws = (length (fd ?p) + b - 1) div b" "concat ws = fd ?p"
    by blast
  have "int (length ws) = \<lceil>(of_nat (length file_content) :: rat) / of_nat b\<rceil>"
    using ws(2) blocks_count_ceiling [OF assms(1), of "length file_content"]
    by (simp add: FileProducer_def)
  then show ?thesis
    using ws(1,3)
    by (simp add: start_def FileProducer_def new_channel_def stopProducing_def)
qed

theorem C9_stream_file_witness:
  "(0::nat) < 2 \<and> ''abcde'' \<noteq> []
   \<and> drive 2 (start (FileProducer ''abcde'', new_channel))
     = Some (\<lparr> has_request = False, fd = [], finish_fired = 1 \<rparr>,
             \<lparr> writes = [''ab'', ''cd'', ''e''], producer_registered = False,
               channel_finished = True \<rparr>)
   \<and> int (length [''ab'', ''cd'', ''e'']) = \<lceil>(of_nat (length ''abcde'') :: rat) / of_nat 2\<rceil>"
proof -
  have run: "drive 2 (start (FileProducer ''abcde'', new_channel))
     = Some (\<lparr> has_request = False, fd = [], finish_fired = 1 \<rparr>,
             \<lparr> writes = [''ab'', ''cd'', ''e''], producer_registered = False,
               channel_finished = True \<rparr>)"
    by (simp add: drive.simps start_def FileProducer_def new_channel_def resumeProducing_def
        stopProducing_def Let_def)
  have "(0::nat) < 2" "''abcde'' \<noteq> []" by simp_all
  from C9_stream_file [OF this] run show ?thesis
    by auto
qed

section \<open>The result of the PGP check\<close>

lemma pgp_validation_loop_result:
  assumes "\<forall>i. clock G (Suc i) \<le> clock G i + days15"
  shows "fst (snd (pgp_validation_loop G i rcvrs))
         = map (\<lambda>r. admin_serialize_receiver G r (default_language G)) (expired_receivers G i rcvrs)"
proof (induction rcvrs arbitrary: i)
  case Nil
  show ?case by simp
next
  case (Cons rcvr rcvrs)
  have step: "\<not> (\<not> pgp_key_expiration (user rcvr) < clock G i
                 \<and> pgp_key_expiration (user rcvr) < clock G (Suc i) - days15)"
    using assms [rule_format, of i] by linarith
  show ?case
    using step Cons.IH [of "Suc i"] Cons.IH [of "Suc (Suc i)"] Cons.IH [of i]
    by (auto split: prod.splits)
qed

lemma expired_receivers_sound:
  "r \<in> set (expired_receivers G i rcvrs) \<Longrightarrow>
     r \<in> set rcvrs \<and> pgp_key_public (user r) \<noteq> []
     \<and> pgp_key_expiration (user r) \<noteq> datetime_null G
     \<and> (\<exists>j. pgp_key_expiration (user r) < clock G j)"
  by (induction rcvrs arbitrary: i) (auto split: if_splits)

text \<open>
  Claim C10 says that the second branch of the periodic PGP check is unreachable and that
  a receiver is appended only when its key expiration is strictly earlier than the
  current time. The two comparisons read \<^verbatim>\<open>datetime_now()\<close> separately: when the second
  reading is 20 days after the first, a key that expires one day after the first reading
  fails the first comparison, passes the second (expiration earlier than now minus 15
  days), and its receiver is appended.
\<close>

theorem C10_second_branch_reached:
  "pgp_validation_check jumping_clock_env [unexpired_receiver] = [''r2'']
   \<and> pgp_key_public (user unexpired_receiver) \<noteq> []
   \<and> pgp_key_expiration (user unexpired_receiver) \<noteq> datetime_null jumping_clock_env
   \<and> \<not> pgp_key_expiration (user unexpired_receiver) < clock jumping_clock_env 0"
  by (simp add: pgp_validation_check_def jumping_clock_env_def unexpired_receiver_def
      days15_def)

text \<open>
  Claim C10, amended: when any two consecutive readings of \<^verbatim>\<open>datetime_now()\<close> are at most
  15 days apart, a receiver with a public key and an expiration date is appended to
  \<^verbatim>\<open>expired_or_expiring\<close> if and only if its key expiration is strictly earlier than the
  reading of the clock it is first compared with; the second branch (expiration earlier
  than now minus 15 days, for a key that is not expired) is not taken, and every receiver
  in the result has a public key, an expiration date and an expiration earlier than a
  reading of the clock.
\<close>

theorem C10_only_expired_keys_reported:
  assumes "\<forall>i. clock G (Suc i) \<le> clock G i + days15"
  shows "pgp_validation_check G rcvrs
         = map (\<lambda>r. admin_serialize_receiver G r (default_language G)) (expired_receivers G 0 rcvrs)
    \<and> (\<forall>r \<in> set (expired_receivers G 0 rcvrs).
          r \<in> set rcvrs \<and> pgp_key_public (user r) \<noteq> []
          \<and> pgp_key_expiration (user r) \<noteq> datetime_null G
          \<and> (\<exists>j. pgp_key_expiration (user r) < clock G j))
    \<and> (pgp_key_public (user rcvr) \<noteq> [] \<and> pgp_key_expiration (user rcvr) \<noteq> datetime_null G
        \<longrightarrow> pgp_validation_check G [rcvr]
            = (if pgp_key_expiration (user rcvr) < clock G 0
               then [admin_serialize_receiver G rcvr (default_language G)] else []))"
proof (intro conjI)
  show "pgp_validation_check G rcvrs
        = map (\<lambda>r. admin_serialize_receiver G r (default_language G)) (expired_receivers G 0 rcvrs)"
    unfolding pgp_validation_check_def by (rule pgp_validation_loop_result [OF assms])
  show "\<forall>r \<in> set (expired_receivers G 0 rcvrs).
          r \<in> set rcvrs \<and> pgp_key_public (user r) \<noteq> []
          \<and> pgp_key_expiration (user r) \<noteq> datetime_null G
          \<and> (\<exists>j. pgp_key_expiration (user r) < clock G j)"
    using expired_receivers_sound by blast
  show "pgp_key_public (user rcvr) \<noteq> [] \<and> pgp_key_expiration (user rcvr) \<noteq> datetime_null G
        \<longrightarrow> pgp_validation_check G [rcvr]
            = (if pgp_key_expiration (user rcvr) < clock G 0
               then [admin_serialize_receiver G rcvr (default_language G)] else [])"
    unfolding pgp_validation_check_def pgp_validation_loop_result [OF assms] by simp
qed

theorem C10_only_expired_keys_reported_witness:
  "(\<forall>i. clock example_pgp_env (Suc i) \<le> clock example_pgp_env i + days15)
   \<and> pgp_validation_check example_pgp_env example_receivers = [''r1'']
   \<and> pgp_validation_check example_pgp_env [example_receivers ! 1] = []"
proof -
  have c: "\<forall>i. clock example_pgp_env (Suc i) \<le> clock example_pgp_env i + days15"
    by (simp add: example_pgp_env_def days15_def)
  from C10_only_expired_keys_reported [OF c, of example_receivers "example_receivers ! 1"] c
  show ?thesis
    by (simp add: example_pgp_env_def example_receivers_def)
qed

end
